theory Spec2Isabelle
  imports Complex_Main "HOL-Library.Log_Nat"
begin

section \<open>JavaScript numbers\<close>

text \<open>
  A TypeScript \<open>number\<close> is an IEEE 754 binary64 value. The finite ones are modelled by
  the real number they denote, next to the two infinities and NaN. The sign of zero is not
  modelled: no operation used by the services (\<open>+\<close>, \<open>-\<close>, \<open>*\<close>, \<open>Math.floor\<close>, array
  indexing) tells \<open>-0\<close> from \<open>+0\<close>.
\<close>

datatype number = Finite real | PosInfinity | NegInfinity | NaN

text \<open>
  The binary exponent of a real number, clamped below at the exponent of the subnormal
  numbers: for \<open>x \<noteq> 0\<close> the largest \<open>e \<ge> -1022\<close> with \<open>2 powi e \<le> \<bar>x\<bar>\<close>, if there is one,
  and \<open>-1022\<close> otherwise.
\<close>

definition expo :: "real \<Rightarrow> int" where
  "expo x =
     (if 1 \<le> \<bar>x\<bar> then bitlen \<lfloor>\<bar>x\<bar>\<rfloor> - 1
      else max (- 1022) (- bitlen (\<lceil>1 / \<bar>x\<bar>\<rceil> - 1)))"

text \<open>The distance between neighbouring doubles around \<open>x\<close>: 53 significant bits.\<close>

definition ulp :: "real \<Rightarrow> real" where
  "ulp x = 2 powi (expo x - 52)"

text \<open>Rounding a real number to the nearest integer, a tie going to the even one.\<close>

definition round_half_even :: "real \<Rightarrow> int" where
  "round_half_even q =
     (let f = \<lfloor>q\<rfloor>; d = q - of_int f
      in if d < 1 / 2 then f
         else if 1 / 2 < d then f + 1
         else if even f then f else f + 1)"

text \<open>Rounding to the nearest multiple of the unit in the last place.\<close>

definition rnd :: "real \<Rightarrow> real" where
  "rnd x = of_int (round_half_even (x / ulp x)) * ulp x"

text \<open>
  The result of an arithmetic operation whose exact value is \<open>x\<close>: round to nearest, ties
  to even, and a rounded magnitude of \<open>2 ^ 1024\<close> or more overflows to an infinity.
\<close>

definition fl :: "real \<Rightarrow> number" where
  "fl x =
     (let y = rnd x
      in if 2 ^ 1024 \<le> y then PosInfinity
         else if y \<le> - (2 ^ 1024) then NegInfinity
         else Finite y)"

definition is_double :: "real \<Rightarrow> bool" where
  "is_double x \<longleftrightarrow> fl x = Finite x"

fun num_neg :: "number \<Rightarrow> number" where
  "num_neg (Finite x) = Finite (- x)"
| "num_neg PosInfinity = NegInfinity"
| "num_neg NegInfinity = PosInfinity"
| "num_neg NaN = NaN"

fun num_add :: "number \<Rightarrow> number \<Rightarrow> number" where
  "num_add NaN _ = NaN"
| "num_add _ NaN = NaN"
| "num_add (Finite x) (Finite y) = fl (x + y)"
| "num_add PosInfinity NegInfinity = NaN"
| "num_add NegInfinity PosInfinity = NaN"
| "num_add PosInfinity _ = PosInfinity"
| "num_add NegInfinity _ = NegInfinity"
| "num_add (Finite x) b = b"

definition num_sub :: "number \<Rightarrow> number \<Rightarrow> number" where
  "num_sub a b = num_add a (num_neg b)"

fun num_sgn :: "number \<Rightarrow> real" where
  "num_sgn (Finite x) = sgn x"
| "num_sgn PosInfinity = 1"
| "num_sgn NegInfinity = - 1"
| "num_sgn NaN = 0"

fun num_mul :: "number \<Rightarrow> number \<Rightarrow> number" where
  "num_mul NaN _ = NaN"
| "num_mul _ NaN = NaN"
| "num_mul (Finite x) (Finite y) = fl (x * y)"
| "num_mul a b =
     (let s = num_sgn a * num_sgn b
      in if s = 0 then NaN else if 0 < s then PosInfinity else NegInfinity)"

text \<open>\<open>Math.floor\<close>: exact on finite numbers, the identity on the others.\<close>

fun Math_floor :: "number \<Rightarrow> number" where
  "Math_floor (Finite x) = Finite (of_int \<lfloor>x\<rfloor>)"
| "Math_floor a = a"

section \<open>RandomNumberService\<close>

text \<open>
  \<open>Math.random()\<close> reads the process-wide random source. The source is the sequence of
  values that the successive calls return; a call returns the first and leaves the rest.
\<close>

type_synonym random_source = "nat \<Rightarrow> real"

definition Math_random :: "random_source \<Rightarrow> number \<times> random_source" where
  "Math_random src = (Finite (src 0), \<lambda>n. src (Suc n))"

text \<open>The source all of whose values are \<open>r\<close>.\<close>

definition constant_source :: "real \<Rightarrow> random_source" where
  "constant_source r = (\<lambda>n. r)"

text \<open>
  \<open>pick(min, max)\<close> of \<open>random-number.service.ts\<close>:
  \<open>Math.floor(Math.random() * (max - min) + min)\<close>. The parameters are called \<open>lo\<close> and
  \<open>hi\<close> here, \<open>min\<close> and \<open>max\<close> being functions of HOL.
\<close>

definition pick :: "number \<Rightarrow> number \<Rightarrow> random_source \<Rightarrow> number \<times> random_source" where
  "pick lo hi src =
     (let (r, src') = Math_random src
      in (Math_floor (num_add (num_mul r (num_sub hi lo)) lo), src'))"

text \<open>
  The stub of the service test: \<open>jasmine.createSpy('pick').and.returnValue(v)\<close> returns
  \<open>v\<close> whatever the arguments are and records the arguments of every call.
\<close>

type_synonym spy_calls = "(number \<times> number) list"

definition spy_pick :: "number \<Rightarrow> number \<Rightarrow> number \<Rightarrow> spy_calls \<Rightarrow> number \<times> spy_calls" where
  "spy_pick v lo hi calls = (v, calls @ [(lo, hi)])"

section \<open>QuoteService, from the hard-coded list\<close>

text \<open>
  The type \<open>IQuote\<close>. Its field \<open>text\<close> is \<open>quote_text\<close> here, since \<open>text\<close> is a keyword of
  Isabelle.
\<close>

record IQuote =
  quote_text :: string
  attribution :: string

text \<open>
  A JavaScript array is a list. Its \<open>length\<close> is a number, and \<open>xs[i]\<close> is the element
  at \<open>i\<close> when \<open>i\<close> is an integer from \<open>0\<close> up to the length, and \<open>undefined\<close> (\<open>None\<close>)
  for every other number: reading out of range raises nothing.
\<close>

definition array_length :: "'a list \<Rightarrow> number" where
  "array_length xs = Finite (real (length xs))"

definition array_get :: "'a list \<Rightarrow> number \<Rightarrow> 'a option" where
  "array_get xs i =
     (case i of
        Finite x \<Rightarrow>
          if of_int \<lfloor>x\<rfloor> = x \<and> 0 \<le> x \<and> x < real (length xs)
          then Some (xs ! nat \<lfloor>x\<rfloor>) else None
      | _ \<Rightarrow> None)"

text \<open>
  \<open>getQuote()\<close> of the first \<open>QuoteService\<close>. The service is constructed with the random
  number service and the list \<open>QUOTE_DATA\<close>; the first is given by its \<open>pick\<close> method, a
  function on the state \<open>'s\<close> that the injected implementation works on.
\<close>

definition getQuote_local ::
  "(number \<Rightarrow> number \<Rightarrow> 's \<Rightarrow> number \<times> 's) \<Rightarrow> IQuote list \<Rightarrow> 's \<Rightarrow> IQuote option \<times> 's" where
  "getQuote_local randomNumberService_pick allQuotes s =
     (let (index, s') = randomNumberService_pick (Finite 0) (array_length allQuotes) s
      in (array_get allQuotes index, s'))"

section \<open>QuoteService, from the remote endpoint\<close>

text \<open>
  An error is a value: \<open>TypeError\<close> is what reading a property of \<open>undefined\<close> throws,
  \<open>TransportError\<close> stands for whatever the HTTP client reports when the request fails.
\<close>

datatype js_error = TypeError | TransportError string

text \<open>
  Modelled from the spec: the asynchronous producer (\<open>Observable\<close>) and its operator \<open>map\<close>,
  which belong to the RxJS library and not to the repository. A producer is given by the
  notifications that a subscriber receives, in order. \<open>map\<close> applies the projection to
  every value; a failure is not caught locally: when the projection throws, the error goes
  to the subscriber and the subscription ends, as it does on an error or on the completion
  of the source.
\<close>

datatype 'a notification = Next 'a | Error js_error | Complete

type_synonym 'a observable = "'a notification list"

fun obs_map :: "('a \<Rightarrow> js_error + 'b) \<Rightarrow> 'a observable \<Rightarrow> 'b observable" where
  "obs_map f [] = []"
| "obs_map f (Next a # ns) =
     (case f a of Inl e \<Rightarrow> [Error e] | Inr b \<Rightarrow> Next b # obs_map f ns)"
| "obs_map f (Error e # ns) = [Error e]"
| "obs_map f (Complete # ns) = [Complete]"

text \<open>
  The wire format \<open>IAPIRecord\<close>, and a response. The body of a response is taken at the
  type that the service declares for it: \<open>json()\<close> is a list of records.
\<close>

record IAPIRecord =
  content :: string
  title :: string

datatype Response = Response "IAPIRecord list"

fun Response_json :: "Response \<Rightarrow> IAPIRecord list" where
  "Response_json (Response records) = records"

text \<open>
  Modelled from the spec: \<open>URLSearchParams\<close> of the HTTP library, the query of a request.
  Each key has its list of values, \<open>set\<close> replaces the values of a key by one value, and
  \<open>toString\<close> joins all \<open>key=value\<close> with \<open>&\<close>.
\<close>

type_synonym URLSearchParams = "(string \<times> string list) list"

definition URLSearchParams_new :: URLSearchParams where
  "URLSearchParams_new = []"

fun URLSearchParams_set :: "string \<Rightarrow> string \<Rightarrow> URLSearchParams \<Rightarrow> URLSearchParams" where
  "URLSearchParams_set param val [] = [(param, [val])]"
| "URLSearchParams_set param val ((k, vs) # ps) =
     (if k = param then (k, [val]) # ps else (k, vs) # URLSearchParams_set param val ps)"

fun join :: "string \<Rightarrow> string list \<Rightarrow> string" where
  "join sep [] = []"
| "join sep [x] = x"
| "join sep (x # y # ys) = x @ sep @ join sep (y # ys)"

definition URLSearchParams_toString :: "URLSearchParams \<Rightarrow> string" where
  "URLSearchParams_toString ps =
     join ''&'' (concat (map (\<lambda>(k, vs). map (\<lambda>v. k @ ''='' @ v) vs) ps))"

text \<open>
  Modelled from the spec: the HTTP client, a collaborator from outside the repository. What
  the service and its tests see of it: \<open>get(url, {search})\<close> makes one request with the
  method \<open>Get\<close>, that URL, those search parameters and no body, and hands it to the backend,
  which records it as a connection; the producer that \<open>get\<close> returns is single-valued: it
  delivers either the response and then the completion, or an error. The URL of the request, as a test reads it from the
  connection, is the URL followed by \<open>?\<close> and the search string. The field \<open>method\<close> of a
  request is \<open>request_method\<close> here.
\<close>

datatype RequestMethod = Get | Post | Put | Delete | Options | Head | Patch

record Request =
  request_method :: RequestMethod
  url :: string
  search :: URLSearchParams
  body :: "string option"

definition Request_url :: "Request \<Rightarrow> string" where
  "Request_url req =
     (let s = URLSearchParams_toString (search req)
      in if s = [] then url req else url req @ ''?'' @ s)"

record Http =
  backend :: "Request \<Rightarrow> js_error + Response"
  connections :: "Request list"

fun response_observable :: "js_error + Response \<Rightarrow> Response observable" where
  "response_observable (Inl e) = [Error e]"
| "response_observable (Inr response) = [Next response, Complete]"

definition Http_get :: "string \<Rightarrow> URLSearchParams \<Rightarrow> Http \<Rightarrow> Response observable \<times> Http" where
  "Http_get u s http =
     (let req = \<lparr>request_method = Get, url = u, search = s, body = None\<rparr>
      in (response_observable (backend http req),
          http\<lparr>connections := connections http @ [req]\<rparr>))"

definition QuoteService_URL :: string where
  "QuoteService_URL = ''http://quotesondesign.com/wp-json/posts''"

text \<open>
  \<open>getQuote()\<close> of the second \<open>QuoteService\<close>. The three projections are the three \<open>map\<close>
  calls: \<open>response.json()\<close>, then \<open>records[0]\<close>, which is \<open>undefined\<close> on an empty array,
  then the record turned into a quote, which throws when the record is \<open>undefined\<close>.
\<close>

definition record_to_quote :: "IAPIRecord option \<Rightarrow> js_error + IQuote" where
  "record_to_quote r =
     (case r of
        None \<Rightarrow> Inl TypeError
      | Some a \<Rightarrow> Inr \<lparr>quote_text = content a, attribution = title a\<rparr>)"

definition getQuote_remote :: "Http \<Rightarrow> IQuote observable \<times> Http" where
  "getQuote_remote http =
     (let search = URLSearchParams_set ''filter[orderby]'' ''rand'' URLSearchParams_new;
          (response, http') = Http_get QuoteService_URL search http
      in (obs_map record_to_quote
            (obs_map (\<lambda>records. Inr (array_get records (Finite 0)))
              (obs_map (\<lambda>response. Inr (Response_json response)) response)),
          http'))"

section \<open>QuoteComponent\<close>

text \<open>
  The component of the application has two quotes, one from each source. Its service is
  injected: it is given by its two methods, functions on the state \<open>'s\<close> of the
  implementation. A field of the component is \<open>None\<close> until it is assigned; the fields
  \<open>remoteText$\<close> and \<open>remoteAttribution$\<close> are written without the dollar sign.
\<close>

record 's QuoteService =
  getRandomQuote :: "'s \<Rightarrow> IQuote option \<times> 's"
  getRemoteQuote :: "'s \<Rightarrow> IQuote observable \<times> 's"

record QuoteComponent =
  randomQuote :: "IQuote option"
  remoteText :: "string observable option"
  remoteAttribution :: "string observable option"

definition QuoteComponent_getRandomQuote ::
  "'s QuoteService \<Rightarrow> QuoteComponent \<times> 's \<Rightarrow> QuoteComponent \<times> 's" where
  "QuoteComponent_getRandomQuote quoteService cs =
     (let (c, s) = cs; (q, s') = getRandomQuote quoteService s
      in (c\<lparr>randomQuote := q\<rparr>, s'))"

definition QuoteComponent_getRemoteQuote ::
  "'s QuoteService \<Rightarrow> QuoteComponent \<times> 's \<Rightarrow> QuoteComponent \<times> 's" where
  "QuoteComponent_getRemoteQuote quoteService cs =
     (let (c, s) = cs; (quote, s') = getRemoteQuote quoteService s
      in (c\<lparr>remoteText := Some (obs_map (\<lambda>q. Inr (quote_text q)) quote),
            remoteAttribution := Some (obs_map (\<lambda>q. Inr (attribution q)) quote)\<rparr>, s'))"

definition QuoteComponent_new :: "'s QuoteService \<Rightarrow> 's \<Rightarrow> QuoteComponent \<times> 's" where
  "QuoteComponent_new quoteService s =
     QuoteComponent_getRemoteQuote quoteService
       (QuoteComponent_getRandomQuote quoteService
          (\<lparr>randomQuote = None, remoteText = None, remoteAttribution = None\<rparr>, s))"

text \<open>
  A service that records its calls, as the mock of a component test does: each method
  returns a fixed result and appends its name to the list of calls.
\<close>

datatype service_call = Call_getRandomQuote | Call_getRemoteQuote

definition spy_service :: "IQuote option \<Rightarrow> IQuote observable \<Rightarrow> service_call list QuoteService" where
  "spy_service q obs =
     \<lparr>getRandomQuote = (\<lambda>calls. (q, calls @ [Call_getRandomQuote])),
      getRemoteQuote = (\<lambda>calls. (obs, calls @ [Call_getRemoteQuote]))\<rparr>"

section \<open>Rounding to binary64\<close>

subsection \<open>Rounding to an integer\<close>

lemma rhe_le: "q \<le> of_int k \<Longrightarrow> round_half_even q \<le> k"
proof -
  assume a: "q \<le> of_int k"
  show ?thesis
  proof (cases "q = of_int k")
    case True
    then show ?thesis unfolding round_half_even_def Let_def by simp
  next
    case False
    then have "q < of_int k" using a by simp
    then have "\<lfloor>q\<rfloor> < k" by (simp add: floor_less_iff)
    then have "\<lfloor>q\<rfloor> + 1 \<le> k" by simp
    then show ?thesis unfolding round_half_even_def Let_def by auto
  qed
qed

lemma rhe_ge: "of_int k \<le> q \<Longrightarrow> k \<le> round_half_even q"
proof -
  assume a: "of_int k \<le> q"
  have f: "k \<le> \<lfloor>q\<rfloor>" using a by (simp add: le_floor_iff)
  then show ?thesis
    unfolding round_half_even_def Let_def by auto
qed

lemma rhe_lt: "q < of_int k - 1/2 \<Longrightarrow> round_half_even q \<le> k - 1"
proof -
  assume a: "q < of_int k - 1/2"
  have "q < of_int k" using a by linarith
  then have f: "\<lfloor>q\<rfloor> \<le> k - 1" by (simp add: floor_less_iff)
  have "q - of_int \<lfloor>q\<rfloor> < 1/2 \<or> \<lfloor>q\<rfloor> + 1 \<le> k - 1"
  proof (cases "\<lfloor>q\<rfloor> = k - 1")
    case True
    then show ?thesis using a by simp
  next
    case False
    then show ?thesis using f by simp
  qed
  then show ?thesis using f
    unfolding round_half_even_def Let_def by auto
qed

lemma rhe_int: "round_half_even (of_int k) = k"
  unfolding round_half_even_def Let_def by simp

subsection \<open>The exponent\<close>

text \<open>
  The exponent is at least \<open>-1022\<close>, every number lies below the next power of two, and a
  number that is not subnormal lies at or above its own: the three facts determine it.
\<close>

lemma expo_ge: "- 1022 \<le> expo x"
proof (cases "1 \<le> \<bar>x\<bar>")
  case True
  then have "0 < \<lfloor>\<bar>x\<bar>\<rfloor>" by linarith
  then have "1 \<le> bitlen \<lfloor>\<bar>x\<bar>\<rfloor>" by (simp add: bitlen_alt_def)
  then show ?thesis using True by (simp add: expo_def)
next
  case False
  then show ?thesis by (simp add: expo_def)
qed

lemma expo_upper: "\<bar>x\<bar> < 2 powi (expo x + 1)"
proof (cases "1 \<le> \<bar>x\<bar>")
  case True
  let ?m = "\<lfloor>\<bar>x\<bar>\<rfloor>"
  have m: "0 < ?m" using True by linarith
  then have b: "1 \<le> bitlen ?m" by (simp add: bitlen_alt_def)
  have "?m < 2 ^ nat (bitlen ?m)" using bitlen_bounds [OF m] by simp
  then have "?m + 1 \<le> 2 ^ nat (bitlen ?m)" by simp
  then have "real_of_int (?m + 1) \<le> real_of_int (2 ^ nat (bitlen ?m))" by (rule of_int_le_iff [THEN iffD2])
  then have "\<bar>x\<bar> < 2 ^ nat (bitlen ?m)" by simp linarith
  also have "\<dots> = 2 powi (bitlen ?m)" using b by (simp add: power_int_def)
  finally show ?thesis using True by (simp add: expo_def)
next
  case False
  show ?thesis
  proof (cases "x = 0")
    case True
    then show ?thesis by simp
  next
    case nz: False
    let ?y = "1 / \<bar>x\<bar>"
    let ?m = "\<lceil>?y\<rceil> - 1"
    let ?b = "bitlen ?m"
    have y: "1 < ?y" using False nz by simp
    then have m: "0 < ?m" by linarith
    have my: "of_int ?m < ?y" by linarith
    have b: "1 \<le> ?b" using m by (simp add: bitlen_alt_def)
    have "2 ^ nat (?b - 1) \<le> ?m" using bitlen_bounds [OF m] by simp
    then have "real_of_int (2 ^ nat (?b - 1)) \<le> real_of_int ?m" by (rule of_int_le_iff [THEN iffD2])
    then have "2 ^ nat (?b - 1) < ?y" using my by simp
    then have "\<bar>x\<bar> * 2 ^ nat (?b - 1) < 1" using nz by (simp add: field_simps)
    then have "\<bar>x\<bar> < 1 / 2 ^ nat (?b - 1)" by (simp add: field_simps)
    also have "\<dots> = 2 powi (- ?b + 1)" using b by (simp add: power_int_def field_simps)
    also have "\<dots> \<le> 2 powi (expo x + 1)"
      using False by (intro power_int_increasing) (simp_all add: expo_def)
    finally show ?thesis .
  qed
qed

lemma expo_lower: "x \<noteq> 0 \<Longrightarrow> 2 powi (expo x) \<le> \<bar>x\<bar> \<or> expo x = - 1022"
proof (cases "1 \<le> \<bar>x\<bar>")
  case True
  let ?m = "\<lfloor>\<bar>x\<bar>\<rfloor>"
  have m: "0 < ?m" using True by linarith
  then have b: "1 \<le> bitlen ?m" by (simp add: bitlen_alt_def)
  have "2 ^ nat (bitlen ?m - 1) \<le> ?m" using bitlen_bounds [OF m] by simp
  then have "real_of_int (2 ^ nat (bitlen ?m - 1)) \<le> real_of_int ?m" by (rule of_int_le_iff [THEN iffD2])
  also have "\<dots> \<le> \<bar>x\<bar>" by (rule of_int_floor_le)
  finally have "2 ^ nat (bitlen ?m - 1) \<le> \<bar>x\<bar>" by simp
  moreover have "2 ^ nat (bitlen ?m - 1) = (2::real) powi (bitlen ?m - 1)" using b by (simp add: power_int_def)
  ultimately show ?thesis using True by (simp add: expo_def)
next
  case False
  assume nz: "x \<noteq> 0"
  let ?y = "1 / \<bar>x\<bar>"
  let ?m = "\<lceil>?y\<rceil> - 1"
  let ?b = "bitlen ?m"
  have y: "1 < ?y" using False nz by simp
  then have m: "0 < ?m" by linarith
  have ym: "?y \<le> of_int (?m + 1)" by simp
  have b: "1 \<le> ?b" using m by (simp add: bitlen_alt_def)
  show ?thesis
  proof (cases "expo x = - 1022")
    case True
    then show ?thesis by simp
  next
    case ne: False
    then have e: "expo x = - ?b" using False by (simp add: expo_def max_def split: if_splits)
    have "?m < 2 ^ nat ?b" using bitlen_bounds [OF m] by simp
    then have "?m + 1 \<le> 2 ^ nat ?b" by simp
    then have "real_of_int (?m + 1) \<le> real_of_int (2 ^ nat ?b)" by (rule of_int_le_iff [THEN iffD2])
    with ym have "?y \<le> real_of_int (2 ^ nat ?b)" by (rule order_trans)
    then have "?y \<le> 2 ^ nat ?b" by simp
    then have "1 \<le> \<bar>x\<bar> * 2 ^ nat ?b" using nz by (simp add: field_simps)
    then have "1 / 2 ^ nat ?b \<le> \<bar>x\<bar>" by (simp add: field_simps)
    moreover have "1 / 2 ^ nat ?b = (2::real) powi (- ?b)" using b by (simp add: power_int_def field_simps)
    ultimately show ?thesis using e by simp
  qed
qed

lemma powi2_less_imp: "(2::real) powi a < 2 powi b \<Longrightarrow> a < b"
proof (rule ccontr)
  assume l: "(2::real) powi a < 2 powi b" and "\<not> a < b"
  then have "b \<le> a" by simp
  then have "(2::real) powi b \<le> 2 powi a" by (rule power_int_increasing) simp
  then show False using l by simp
qed

lemma expo_unique:
  assumes "- 1022 \<le> e" "2 powi e \<le> \<bar>x\<bar>" "\<bar>x\<bar> < 2 powi (e + 1)"
  shows "expo x = e"
proof -
  have "0 < (2::real) powi e" by simp
  then have "0 < \<bar>x\<bar>" using assms(2) by linarith
  then have nz: "x \<noteq> 0" by simp
  have "(2::real) powi e < 2 powi (expo x + 1)" using assms(2) expo_upper [of x] by linarith
  then have 1: "e \<le> expo x" using powi2_less_imp [of e "expo x + 1"] by simp
  have "expo x \<le> e"
  proof (cases "expo x = - 1022")
    case True
    then show ?thesis using assms(1) by simp
  next
    case False
    then have "(2::real) powi (expo x) \<le> \<bar>x\<bar>" using expo_lower [OF nz] by simp
    then have "(2::real) powi (expo x) < 2 powi (e + 1)" using assms(3) by linarith
    then show ?thesis using powi2_less_imp [of "expo x" "e + 1"] by simp
  qed
  then show ?thesis using 1 by simp
qed

lemma expo_0: "expo 0 = 0"
  by (simp add: expo_def bitlen_alt_def)

lemma expo_le:
  assumes "x \<noteq> 0" "- 1022 \<le> e" "\<bar>x\<bar> < 2 powi (e + 1)"
  shows "expo x \<le> e"
proof (cases "expo x = - 1022")
  case True
  then show ?thesis using assms(2) by simp
next
  case False
  then have "(2::real) powi (expo x) \<le> \<bar>x\<bar>" using expo_lower [OF assms(1)] by simp
  then have "(2::real) powi (expo x) < 2 powi (e + 1)" using assms(3) by linarith
  then show ?thesis using powi2_less_imp [of "expo x" "e + 1"] by simp
qed

lemma expo_le_52: "\<bar>x\<bar> < 2 ^ 53 \<Longrightarrow> expo x \<le> 52"
proof (cases "x = 0")
  case True
  then show ?thesis by (simp add: expo_0)
next
  case False
  assume "\<bar>x\<bar> < 2 ^ 53"
  then have "\<bar>x\<bar> < 2 powi (52 + 1)" by simp
  with False show ?thesis by (intro expo_le) simp_all
qed

lemma expo_half: "expo (1 / 2) = - 1"
  by (rule expo_unique) (simp_all add: power_int_minus)

subsection \<open>Rounding never crosses a number of the grid\<close>

text \<open>
  The doubles around \<open>x\<close> are the multiples of \<open>ulp x\<close>. A rounded value does not pass a
  multiple that the exact value does not pass, and it stays a whole unit below a multiple
  from which the exact value is more than half a unit away.
\<close>

lemma ulp_pos: "0 < ulp x"
  by (simp add: ulp_def)

lemma ulp_eq: "ulp x * 2 ^ 53 = 2 powi (expo x + 1)"
proof -
  have "expo x + 1 = (expo x - 52) + 53" by simp
  then have "(2::real) powi (expo x + 1) = 2 powi ((expo x - 52) + 53)" by (simp only:)
  also have "\<dots> = 2 powi (expo x - 52) * 2 powi 53" by (rule power_int_add) simp
  finally show ?thesis by (simp add: ulp_def)
qed

lemma rnd_le:
  assumes "c = of_int k * ulp x" "x \<le> c"
  shows "rnd x \<le> c"
proof -
  have "x / ulp x \<le> of_int k" using assms ulp_pos [of x] by (simp add: field_simps)
  then have "round_half_even (x / ulp x) \<le> k" by (rule rhe_le)
  then have "real_of_int (round_half_even (x / ulp x)) \<le> real_of_int k" by simp
  then have "real_of_int (round_half_even (x / ulp x)) * ulp x \<le> real_of_int k * ulp x"
    using ulp_pos [of x] by (simp add: mult_right_mono)
  then show ?thesis using assms(1) by (simp add: rnd_def)
qed

lemma rnd_ge:
  assumes "c = of_int k * ulp x" "c \<le> x"
  shows "c \<le> rnd x"
proof -
  have "of_int k \<le> x / ulp x" using assms ulp_pos [of x] by (simp add: field_simps)
  then have "k \<le> round_half_even (x / ulp x)" by (rule rhe_ge)
  then have "real_of_int k \<le> real_of_int (round_half_even (x / ulp x))" by simp
  then have "real_of_int k * ulp x \<le> real_of_int (round_half_even (x / ulp x)) * ulp x"
    using ulp_pos [of x] by (simp add: mult_right_mono)
  then show ?thesis using assms(1) by (simp add: rnd_def)
qed

lemma rnd_lt:
  assumes "c = of_int k * ulp x" "x < c - ulp x / 2"
  shows "rnd x \<le> c - ulp x"
proof -
  have "x / ulp x < of_int k - 1 / 2" using assms ulp_pos [of x] by (simp add: field_simps)
  then have "round_half_even (x / ulp x) \<le> k - 1" by (rule rhe_lt)
  then have "real_of_int (round_half_even (x / ulp x)) \<le> real_of_int (k - 1)"
    by (simp only: of_int_le_iff)
  then have "real_of_int (round_half_even (x / ulp x)) * ulp x \<le> real_of_int (k - 1) * ulp x"
    using ulp_pos [of x] by (simp add: mult_right_mono)
  then show ?thesis using assms(1) by (simp add: rnd_def algebra_simps)
qed

lemma rnd_exact:
  assumes "x = of_int k * ulp x"
  shows "rnd x = x"
proof -
  have "x / ulp x = of_int k" using assms ulp_pos [of x] by (simp add: field_simps)
  then have "round_half_even (x / ulp x) = k" by (simp add: rhe_int)
  then show ?thesis using assms by (simp add: rnd_def)
qed

lemma rnd_0: "rnd 0 = 0"
  using rnd_exact [of 0 0] by simp

lemma int_grid:
  assumes "expo x \<le> 52"
  shows "\<exists>k. real_of_int c = of_int k * ulp x"
proof -
  have "ulp x = 1 / 2 ^ nat (52 - expo x)"
    using assms by (simp add: ulp_def power_int_def field_simps)
  then have "real_of_int c = of_int (c * 2 ^ nat (52 - expo x)) * ulp x" by simp
  then show ?thesis by blast
qed

lemma rnd_int_le:
  assumes "\<bar>x\<bar> < 2 ^ 53" "x \<le> of_int c"
  shows "rnd x \<le> of_int c"
proof -
  obtain k where "real_of_int c = of_int k * ulp x"
    using int_grid [OF expo_le_52 [OF assms(1)]] by blast
  then show ?thesis using assms(2) by (rule rnd_le)
qed

lemma rnd_int_ge:
  assumes "\<bar>x\<bar> < 2 ^ 53" "of_int c \<le> x"
  shows "of_int c \<le> rnd x"
proof -
  obtain k where "real_of_int c = of_int k * ulp x"
    using int_grid [OF expo_le_52 [OF assms(1)]] by blast
  then show ?thesis using assms(2) by (rule rnd_ge)
qed

lemma rnd_int:
  assumes "\<bar>real_of_int c\<bar> < 2 ^ 53"
  shows "rnd (of_int c) = of_int c"
  using rnd_int_le [OF assms, of c] rnd_int_ge [OF assms, of c] by simp

lemma rnd_2_53: "rnd (2 ^ 53) = 2 ^ 53"
proof -
  have "expo (2 ^ 53) = 53" by (rule expo_unique) simp_all
  then have "ulp (2 ^ 53) = 2" by (simp add: ulp_def)
  then have "(2::real) ^ 53 = of_int (2 ^ 52) * ulp (2 ^ 53)" by simp
  then show ?thesis by (rule rnd_exact)
qed

lemma rnd_neg_2_53: "rnd (- (2 ^ 53)) = - (2 ^ 53)"
proof -
  have "expo (- (2 ^ 53)) = 53" by (rule expo_unique) simp_all
  then have "ulp (- (2 ^ 53)) = 2" by (simp add: ulp_def)
  then have "- ((2::real) ^ 53) = of_int (- (2 ^ 52)) * ulp (- (2 ^ 53))" by simp
  then show ?thesis by (rule rnd_exact)
qed

lemma rnd_int_53:
  assumes "\<bar>real_of_int c\<bar> \<le> 2 ^ 53"
  shows "rnd (of_int c) = of_int c"
proof -
  consider "\<bar>real_of_int c\<bar> < 2 ^ 53" | "real_of_int c = 2 ^ 53" | "real_of_int c = - (2 ^ 53)"
    using assms by linarith
  then show ?thesis
  proof cases
    case 1
    then show ?thesis by (rule rnd_int)
  next
    case 2
    then show ?thesis by (simp only: rnd_2_53)
  next
    case 3
    then show ?thesis by (simp only: rnd_neg_2_53)
  qed
qed

lemma rnd_53_le:
  assumes "\<bar>x\<bar> \<le> 2 ^ 53" "x \<le> of_int c"
  shows "rnd x \<le> of_int c"
proof -
  consider "\<bar>x\<bar> < 2 ^ 53" | "x = 2 ^ 53" | "x = - (2 ^ 53)"
    using assms(1) by linarith
  then show ?thesis
  proof cases
    case 1
    then show ?thesis using assms(2) by (rule rnd_int_le)
  next
    case 2
    then show ?thesis using assms(2) by (simp only: rnd_2_53)
  next
    case 3
    then show ?thesis using assms(2) by (simp only: rnd_neg_2_53)
  qed
qed

lemma rnd_53_ge:
  assumes "\<bar>x\<bar> \<le> 2 ^ 53" "of_int c \<le> x"
  shows "of_int c \<le> rnd x"
proof -
  consider "\<bar>x\<bar> < 2 ^ 53" | "x = 2 ^ 53" | "x = - (2 ^ 53)"
    using assms(1) by linarith
  then show ?thesis
  proof cases
    case 1
    then show ?thesis using assms(2) by (rule rnd_int_ge)
  next
    case 2
    then show ?thesis using assms(2) by (simp only: rnd_2_53)
  next
    case 3
    then show ?thesis using assms(2) by (simp only: rnd_neg_2_53)
  qed
qed

subsection \<open>Rounded values are doubles\<close>

lemma rhe_bounds: "- (2 ^ 53) \<le> round_half_even (x / ulp x) \<and> round_half_even (x / ulp x) \<le> 2 ^ 53"
proof -
  have "\<bar>x\<bar> < ulp x * 2 ^ 53" using expo_upper [of x] by (simp only: ulp_eq)
  then have a: "\<bar>x\<bar> / ulp x < 2 ^ 53" using ulp_pos [of x] by (simp add: field_simps)
  have "x / ulp x \<le> \<bar>x\<bar> / ulp x" using ulp_pos [of x] by (simp add: divide_right_mono)
  then have "x / ulp x \<le> 2 ^ 53" using a by linarith
  then have 1: "x / ulp x \<le> real_of_int (2 ^ 53)" by simp
  have "(- \<bar>x\<bar>) / ulp x \<le> x / ulp x" using ulp_pos [of x] by (intro divide_right_mono) simp_all
  then have "- (2 ^ 53) \<le> x / ulp x" using a by simp
  then have 2: "real_of_int (- (2 ^ 53)) \<le> x / ulp x" by simp
  show ?thesis using rhe_le [OF 1] rhe_ge [OF 2] by simp
qed

lemma rnd_grid: "\<exists>k. rnd x = of_int k * ulp (rnd x)"
proof -
  define n where "n = round_half_even (x / ulp x)"
  have y: "rnd x = of_int n * ulp x" by (simp add: rnd_def n_def)
  have nb: "- (2 ^ 53) \<le> n" "n \<le> 2 ^ 53" using rhe_bounds [of x] by (simp_all add: n_def)
  have ex: "- 1022 \<le> expo x" by (rule expo_ge)
  consider "n = 0" | "\<bar>n\<bar> = 2 ^ 53" | "n \<noteq> 0" "\<bar>n\<bar> < 2 ^ 53" using nb by linarith
  then show ?thesis
  proof cases
    case 1
    then have "rnd x = of_int 0 * ulp (rnd x)" using y by simp
    then show ?thesis by blast
  next
    case 2
    then have n53: "\<bar>real_of_int n\<bar> = 2 ^ 53" by (metis of_int_abs of_int_numeral of_int_power)
    have "\<bar>rnd x\<bar> = \<bar>real_of_int n\<bar> * ulp x" using y ulp_pos [of x] by (simp add: abs_mult)
    also have "\<dots> = ulp x * 2 ^ 53" by (simp only: n53 mult.commute)
    also have "\<dots> = 2 powi (expo x + 1)" by (rule ulp_eq)
    finally have a: "\<bar>rnd x\<bar> = 2 powi (expo x + 1)" .
    have "(2::real) powi (expo x + 1) < 2 powi (expo x + 1 + 1)"
      by (rule power_int_strict_increasing) simp_all
    then have "expo (rnd x) = expo x + 1" using a ex by (intro expo_unique) simp_all
    then have "ulp (rnd x) = 2 powi ((expo x - 52) + 1)" by (simp add: ulp_def)
    also have "\<dots> = 2 powi (expo x - 52) * 2 powi 1" by (rule power_int_add) simp
    finally have u: "ulp (rnd x) = ulp x * 2" by (simp add: ulp_def)
    have "even \<bar>n\<bar>" unfolding 2 by simp
    then have "even n" by simp
    then obtain m where "n = 2 * m" by (auto elim: evenE)
    then have "rnd x = of_int m * ulp (rnd x)" using y u by simp
    then show ?thesis by blast
  next
    case 3
    then have "\<bar>real_of_int n\<bar> < 2 ^ 53" by (metis of_int_abs of_int_less_numeral_power_cancel_iff)
    then have lt: "\<bar>real_of_int n\<bar> * ulp x < 2 ^ 53 * ulp x" using ulp_pos [of x] by simp
    have "\<bar>rnd x\<bar> = \<bar>real_of_int n\<bar> * ulp x" using y ulp_pos [of x] by (simp add: abs_mult)
    also have "\<dots> < 2 ^ 53 * ulp x" by (rule lt)
    also have "\<dots> = ulp x * 2 ^ 53" by (simp only: mult.commute)
    also have "\<dots> = 2 powi (expo x + 1)" by (rule ulp_eq)
    finally have a: "\<bar>rnd x\<bar> < 2 powi (expo x + 1)" .
    have nz: "rnd x \<noteq> 0" using y 3(1) ulp_pos [of x] by simp
    have le: "expo (rnd x) \<le> expo x" using nz ex a by (rule expo_le)
    define d where "d = nat (expo x - expo (rnd x))"
    have "(2::real) powi (expo x - 52) = 2 powi ((expo (rnd x) - 52) + int d)"
      using le by (simp add: d_def)
    also have "\<dots> = 2 powi (expo (rnd x) - 52) * 2 powi (int d)" by (rule power_int_add) simp
    finally have ux: "ulp x = ulp (rnd x) * 2 ^ d" by (simp add: ulp_def)
    have "real_of_int n * ulp x = of_int (n * 2 ^ d) * ulp (rnd x)" by (subst ux) simp
    then have "rnd x = of_int (n * 2 ^ d) * ulp (rnd x)" by (simp only: y [symmetric])
    then show ?thesis by blast
  qed
qed

lemma rnd_idem: "rnd (rnd x) = rnd x"
proof -
  obtain k where "rnd x = of_int k * ulp (rnd x)" using rnd_grid by blast
  then show ?thesis by (rule rnd_exact)
qed

lemma fl_Finite: "\<bar>rnd x\<bar> < 2 ^ 1024 \<Longrightarrow> fl x = Finite (rnd x)"
  by (simp add: fl_def Let_def) linarith

lemma fl_53: "\<bar>rnd x\<bar> \<le> 2 ^ 53 \<Longrightarrow> fl x = Finite (rnd x)"
proof -
  assume a: "\<bar>rnd x\<bar> \<le> 2 ^ 53"
  have "(2::real) ^ 53 < 2 ^ 1024" by (rule power_strict_increasing) simp_all
  then have "\<bar>rnd x\<bar> < 2 ^ 1024" using a by linarith
  then show ?thesis by (rule fl_Finite)
qed

lemma fl_0: "fl 0 = Finite 0"
  by (simp add: fl_def rnd_0)

lemma is_double_rnd: "is_double x \<Longrightarrow> rnd x = x"
  by (auto simp: is_double_def fl_def Let_def split: if_splits)

lemma is_double_0: "is_double 0"
  by (simp add: is_double_def fl_def rnd_0)

lemma is_double_half: "is_double (1 / 2)"
proof -
  have u: "ulp (1 / 2) = 1 / 2 ^ 53" by (simp add: ulp_def expo_half power_int_minus field_simps)
  have "(1 / 2 :: real) = of_int (2 ^ 52) * ulp (1 / 2)" by (simp add: u)
  then have "rnd (1 / 2) = 1 / 2" by (rule rnd_exact)
  then show ?thesis by (simp add: is_double_def fl_def)
qed

subsection \<open>Doubles below one, scaled by an integer\<close>

text \<open>
  The largest double below \<open>1\<close> is \<open>1 - 2\<^sup>-\<^sup>5\<^sup>3\<close>. The product of a double in \<open>[0, 1)\<close>
  and an integer \<open>N\<close> up to \<open>2\<^sup>5\<^sup>3\<close> stays below \<open>N\<close> after rounding: the exact product is
  more than half a unit away from \<open>N\<close>.
\<close>

lemma is_double_below_1:
  assumes "is_double r" "r < 1"
  shows "r \<le> 1 - 1 / 2 ^ 53"
proof (rule ccontr)
  assume "\<not> r \<le> 1 - 1 / 2 ^ 53"
  then have lo: "1 - 1 / 2 ^ 53 < r" by simp
  then have "1 / 2 \<le> \<bar>r\<bar>" "\<bar>r\<bar> < 1" using assms(2) by simp_all
  then have "expo r = - 1" by (intro expo_unique) (simp_all add: power_int_minus field_simps)
  then have u: "ulp r = 1 / 2 ^ 53" by (simp add: ulp_def power_int_minus field_simps)
  define n where "n = round_half_even (r / ulp r)"
  have "r = rnd r" using assms(1) by (simp add: is_double_rnd)
  also have "\<dots> = real_of_int n * ulp r" by (simp add: rnd_def n_def)
  also have "\<dots> = real_of_int n / 2 ^ 53" by (simp add: u)
  finally have r: "r = real_of_int n / 2 ^ 53" .
  have "real_of_int n < 2 ^ 53" using assms(2) unfolding r by (simp add: field_simps)
  then have 1: "n < 2 ^ 53" by simp
  have "2 ^ 53 - 1 < real_of_int n" using lo unfolding r by (simp add: field_simps)
  then have "real_of_int (2 ^ 53 - 1) < real_of_int n" by simp
  then have "2 ^ 53 - 1 < n" by (simp only: of_int_less_iff)
  then show False using 1 by simp
qed

lemma rnd_scaled_less:
  assumes "0 \<le> r" "r \<le> 1 - 1 / 2 ^ 53" "1 \<le> N" "real_of_int N \<le> 2 ^ 53"
  shows "rnd (r * of_int N) < of_int N"
proof (cases "r = 0")
  case True
  then show ?thesis using assms(3) by (simp add: rnd_0)
next
  case False
  define x where "x = r * real_of_int N"
  have N: "0 < real_of_int N" using assms(3) by simp
  have xpos: "0 < x" using False assms(1) N by (simp add: x_def)
  have "x \<le> (1 - 1 / 2 ^ 53) * real_of_int N"
    unfolding x_def using assms(2) N by (intro mult_right_mono) simp_all
  then have xle: "x \<le> real_of_int N - real_of_int N / 2 ^ 53" by (simp add: algebra_simps)
  moreover have "0 < real_of_int N / 2 ^ 53" using N by simp
  ultimately have xN: "x < real_of_int N" by linarith
  then have "\<bar>x\<bar> < 2 ^ 53" using xpos assms(4) by simp
  then have e52: "expo x \<le> 52" by (rule expo_le_52)
  then obtain k where k: "real_of_int N = of_int k * ulp x" using int_grid by blast
  have "2 powi (expo x) < real_of_int N"
  proof (cases "expo x = - 1022")
    case True
    have "(2::real) powi (- 1022) \<le> 2 powi 0" by (rule power_int_increasing) simp_all
    then have "(2::real) powi (- 1022) \<le> 1" by simp
    moreover have "(2::real) powi (- 1022) \<noteq> 1" by (simp add: power_int_minus field_simps)
    ultimately show ?thesis using True assms(3) by simp
  next
    case False
    then have "2 powi (expo x) \<le> \<bar>x\<bar>" using expo_lower [of x] xpos by simp
    then show ?thesis using xN xpos by simp
  qed
  moreover have "ulp x * 2 ^ 53 = 2 powi (expo x) * 2"
    using ulp_eq [of x] power_int_add [of "2::real" "expo x" 1] by simp
  ultimately have "ulp x / 2 < real_of_int N / 2 ^ 53" by (simp add: field_simps)
  then have "x < real_of_int N - ulp x / 2" using xle by linarith
  with k have "rnd x \<le> real_of_int N - ulp x" by (rule rnd_lt)
  then show ?thesis using ulp_pos [of x] by (simp add: x_def)
qed

subsection \<open>Two roundings next to a power of two\<close>

lemma rnd_near_one:
  assumes "r = 1 - 1 / 2 ^ 53"
  shows "rnd r = r"
proof -
  have "expo r = - 1"
    by (rule expo_unique) (simp_all add: assms power_int_minus)
  then have u: "ulp r = 1 / 2 ^ 53"
    by (simp add: ulp_def power_int_minus field_simps)
  have "r = of_int (2 ^ 53 - 1) * ulp r"
    unfolding u by (simp add: assms)
  then show ?thesis by (rule rnd_exact)
qed

lemma rnd_tie_at_two:
  assumes "x = 2 - 1 / 2 ^ 53"
  shows "rnd x = 2"
proof -
  have "expo x = 0" by (rule expo_unique) (simp_all add: assms)
  then have u: "ulp x = 1 / 2 ^ 52" by (simp add: ulp_def power_int_minus field_simps)
  have "round_half_even (x / ulp x) = 2 ^ 53"
    unfolding u by (simp add: assms round_half_even_def)
  then have "rnd x = 2 ^ 53 * ulp x" by (simp add: rnd_def)
  then show ?thesis unfolding u by simp
qed

section \<open>Properties of RandomNumberService\<close>

lemma pick_Finite:
  "pick (Finite lo) (Finite hi) src =
     (Math_floor (num_add (num_mul (Finite (src 0)) (fl (hi - lo))) (Finite lo)), \<lambda>n. src (Suc n))"
  by (simp add: pick_def Math_random_def num_sub_def)

text \<open>
  The three roundings of \<open>pick\<close>, for integer bounds that doubles represent exactly and a
  difference that they represent exactly.
\<close>

lemma pick_rounds:
  assumes r: "0 \<le> src 0" "src 0 < 1"
    and b: "lo \<le> hi" "- (2 ^ 53) \<le> lo" "hi \<le> 2 ^ 53" "hi - lo \<le> 2 ^ 53"
  shows "fst (pick (Finite (of_int lo)) (Finite (of_int hi)) src) =
           Finite (of_int \<lfloor>rnd (rnd (src 0 * of_int (hi - lo)) + of_int lo)\<rfloor>)"
    and "0 \<le> rnd (src 0 * of_int (hi - lo))"
    and "rnd (src 0 * of_int (hi - lo)) \<le> of_int (hi - lo)"
    and "of_int lo \<le> rnd (rnd (src 0 * of_int (hi - lo)) + of_int lo)"
    and "rnd (rnd (src 0 * of_int (hi - lo)) + of_int lo) \<le> of_int hi"
proof -
  define d where "d = hi - lo"
  define x where "x = src 0 * real_of_int d"
  define p where "p = rnd x"
  have d: "0 \<le> d" "d \<le> 2 ^ 53" using b by (simp_all add: d_def)
  then have dr: "0 \<le> real_of_int d" "real_of_int d \<le> 2 ^ 53"
    by simp_all
  then have "\<bar>real_of_int d\<bar> \<le> 2 ^ 53" by simp
  then have rd: "rnd (real_of_int d) = real_of_int d" by (rule rnd_int_53)
  then have "\<bar>rnd (real_of_int d)\<bar> \<le> 2 ^ 53" using dr by simp
  then have fd: "fl (real_of_int hi - real_of_int lo) = Finite (real_of_int d)"
    using fl_53 [of "real_of_int d"] rd by (simp add: d_def)
  have x0: "0 \<le> x" using r(1) dr(1) by (simp add: x_def)
  have "x \<le> 1 * real_of_int d" unfolding x_def using r(2) dr(1) by (intro mult_right_mono) simp_all
  then have xd: "x \<le> real_of_int d" by simp
  then have xa: "\<bar>x\<bar> \<le> 2 ^ 53" using x0 dr(2) by simp
  have p0: "0 \<le> p" using rnd_53_ge [OF xa, of 0] x0 by (simp add: p_def)
  have pd: "p \<le> real_of_int d" unfolding p_def using xa xd by (rule rnd_53_le)
  then have "\<bar>rnd x\<bar> \<le> 2 ^ 53" using p0 dr(2) by (simp add: p_def)
  then have fx: "fl x = Finite p" by (simp add: fl_53 p_def)
  have lr: "- (2 ^ 53) \<le> real_of_int lo" "real_of_int hi \<le> 2 ^ 53"
    using b(2,3) by simp_all
  have s1: "real_of_int lo \<le> p + real_of_int lo" using p0 by simp
  have s2: "p + real_of_int lo \<le> real_of_int hi" using pd by (simp add: d_def)
  then have sa: "\<bar>p + real_of_int lo\<bar> \<le> 2 ^ 53" using s1 lr by linarith
  have q1: "real_of_int lo \<le> rnd (p + real_of_int lo)" using sa s1 by (rule rnd_53_ge)
  have q2: "rnd (p + real_of_int lo) \<le> real_of_int hi" using sa s2 by (rule rnd_53_le)
  then have "\<bar>rnd (p + real_of_int lo)\<bar> \<le> 2 ^ 53" using q1 lr by linarith
  then have fs: "fl (p + real_of_int lo) = Finite (rnd (p + real_of_int lo))" by (rule fl_53)
  show "fst (pick (Finite (of_int lo)) (Finite (of_int hi)) src) =
           Finite (of_int \<lfloor>rnd (rnd (src 0 * of_int (hi - lo)) + of_int lo)\<rfloor>)"
    using fd fx fs by (simp add: pick_Finite x_def [symmetric] d_def [symmetric] p_def [symmetric])
  show "0 \<le> rnd (src 0 * of_int (hi - lo))" using p0 by (simp add: p_def x_def d_def)
  show "rnd (src 0 * of_int (hi - lo)) \<le> of_int (hi - lo)" using pd by (simp add: p_def x_def d_def)
  show "of_int lo \<le> rnd (rnd (src 0 * of_int (hi - lo)) + of_int lo)" using q1 by (simp add: p_def x_def d_def)
  show "rnd (rnd (src 0 * of_int (hi - lo)) + of_int lo) \<le> of_int hi" using q2 by (simp add: p_def x_def d_def)
qed

lemma pick_index:
  assumes "is_double (src 0)" "0 \<le> src 0" "src 0 < 1"
    and "xs \<noteq> []" "length xs < 2 ^ 32"
  shows "\<exists>k < length xs. fst (pick (Finite 0) (array_length xs) src) = Finite (real k)"
proof -
  define N where "N = int (length xs)"
  have N: "1 \<le> N" "N < 2 ^ 32" using assms(4,5) by (simp_all add: N_def Suc_leI)
  have "(2::int) ^ 32 \<le> 2 ^ 53" by (rule power_increasing) simp_all
  then have N53: "N \<le> 2 ^ 53" using N(2) by linarith
  then have Nr: "real_of_int N \<le> 2 ^ 53" by simp
  note R = pick_rounds [where src = src and lo = 0 and hi = N, OF assms(2,3)]
  let ?p = "rnd (src 0 * real_of_int N)"
  have r: "src 0 \<le> 1 - 1 / 2 ^ 53" using assms(1,3) by (rule is_double_below_1)
  have lt: "?p < real_of_int N" using assms(2) r N(1) Nr by (rule rnd_scaled_less)
  have ge: "0 \<le> ?p" using R(2) N N53 by simp
  have "fst (pick (Finite (of_int 0)) (Finite (of_int N)) src) = Finite (of_int \<lfloor>rnd (?p + of_int 0)\<rfloor>)"
    using R(1) N N53 by simp
  then have "fst (pick (Finite 0) (Finite (of_int N)) src) = Finite (of_int \<lfloor>rnd ?p\<rfloor>)" by simp
  then have eq: "fst (pick (Finite 0) (array_length xs) src) = Finite (of_int \<lfloor>?p\<rfloor>)"
    by (simp add: rnd_idem array_length_def N_def)
  have f0: "0 \<le> \<lfloor>?p\<rfloor>" using ge by simp
  have "\<lfloor>?p\<rfloor> < N" using lt by (simp add: floor_less_iff)
  then have "nat \<lfloor>?p\<rfloor> < length xs" using f0 unfolding N_def by linarith
  moreover have "real_of_int \<lfloor>?p\<rfloor> = real (nat \<lfloor>?p\<rfloor>)" using f0 by simp
  ultimately show ?thesis using eq by metis
qed

lemma pick_zero_draw:
  assumes "src 0 = 0" "length xs < 2 ^ 32"
  shows "fst (pick (Finite 0) (array_length xs) src) = Finite 0"
proof -
  define N where "N = int (length xs)"
  have N: "0 \<le> N" "N < 2 ^ 32" using assms(2) by (simp_all add: N_def)
  have "(2::int) ^ 32 \<le> 2 ^ 53" by (rule power_increasing) simp_all
  then have N53: "N \<le> 2 ^ 53" using N(2) by linarith
  have "fst (pick (Finite (of_int 0)) (Finite (of_int N)) src) =
          Finite (of_int \<lfloor>rnd (rnd (src 0 * of_int (N - 0)) + of_int 0)\<rfloor>)"
    using N N53 assms(1) by (intro pick_rounds(1) [where src = src and lo = 0 and hi = N]) simp_all
  then show ?thesis by (simp add: assms(1) rnd_0 array_length_def N_def)
qed

text \<open>
  Claim C1: for all integers \<open>min < max\<close> and every value \<open>r\<close> of the random source with
  \<open>0 \<le> r < 1\<close>, \<open>pick(min, max)\<close> is an integer with \<open>min \<le> pick(min, max) < max\<close>. The code
  aims at this range and misses it where the last sum rounds up: with \<open>min = 1\<close>, \<open>max = 2\<close>
  and the largest double below one, \<open>r = 1 - 2\<^sup>-\<^sup>5\<^sup>3\<close> (\<open>0.9999999999999999\<close>), the product
  \<open>r * 1\<close> is \<open>r\<close>, the sum \<open>r + 1\<close> lies halfway between the doubles \<open>2 - 2\<^sup>-\<^sup>5\<^sup>2\<close> and \<open>2\<close>
  and rounds to the even one, \<open>2\<close>, and \<open>Math.floor\<close> returns \<open>2 = max\<close>. The theorem evaluates
  \<open>pick\<close> at this input.
\<close>

theorem pick_returns_max_at_tie:
  "is_double (1 - 1 / 2 ^ 53) \<and> (0::real) \<le> 1 - 1 / 2 ^ 53 \<and> (1 - 1 / 2 ^ 53 :: real) < 1
   \<and> fst (pick (Finite (of_int 1)) (Finite (of_int 2)) (constant_source (1 - 1 / 2 ^ 53))) = Finite (of_int 2)"
proof -
  define r :: real where "r = 1 - 1 / 2 ^ 53"
  have rr: "rnd r = r" using r_def by (rule rnd_near_one)
  have b: "0 \<le> r" "r < 1" by (simp_all add: r_def)
  then have "\<bar>rnd r\<bar> \<le> 2 ^ 53" unfolding rr by simp
  then have "fl r = Finite (rnd r)" by (rule fl_53)
  then have d: "is_double r" unfolding rr by (simp only: is_double_def)
  have "r + 1 = 2 - 1 / 2 ^ 53" by (simp add: r_def)
  then have tie: "rnd (r + 1) = 2" by (rule rnd_tie_at_two)
  have "fst (pick (Finite (of_int 1)) (Finite (of_int 2)) (constant_source r)) =
          Finite (of_int \<lfloor>rnd (rnd (constant_source r 0 * of_int (2 - 1)) + of_int 1)\<rfloor>)"
    using b by (intro pick_rounds(1) [where src = "constant_source r" and lo = 1 and hi = 2])
      (simp_all add: constant_source_def)
  also have "\<dots> = Finite (of_int \<lfloor>rnd (rnd r + 1)\<rfloor>)" by (simp add: constant_source_def)
  also have "\<dots> = Finite (of_int 2)" unfolding rr tie by simp
  finally have "is_double r \<and> 0 \<le> r \<and> r < 1
     \<and> fst (pick (Finite (of_int 1)) (Finite (of_int 2)) (constant_source r)) = Finite (of_int 2)"
    using d b by simp
  then show ?thesis unfolding r_def .
qed

section \<open>Properties of the QuoteService of the hard-coded list\<close>

lemma array_get_nat: "k < length xs \<Longrightarrow> array_get xs (Finite (real k)) = Some (xs ! k)"
  by (simp add: array_get_def)

lemma array_get_first: "array_get (x # xs) (Finite 0) = Some x"
  by (simp add: array_get_def)

lemma array_get_empty: "array_get [] i = None"
  by (cases i) (simp_all add: array_get_def)

lemma getQuote_local_fst:
  "fst (getQuote_local f allQuotes s) =
     array_get allQuotes (fst (f (Finite 0) (array_length allQuotes) s))"
  by (simp add: getQuote_local_def split: prod.splits)

lemma getQuote_local_snd:
  "snd (getQuote_local f allQuotes s) = snd (f (Finite 0) (array_length allQuotes) s)"
  by (simp add: getQuote_local_def split: prod.splits)

text \<open>
  Claim C2: for every non-empty list of quotes of length \<open>N\<close>, the index that \<open>getQuote()\<close>
  computes by \<open>pick(0, N)\<close> is an integer \<open>k\<close> with \<open>0 \<le> k < N\<close>, so that the access
  \<open>allQuotes[index]\<close> is in range and yields the quote at \<open>k\<close>. The random value is any
  double in \<open>[0, 1)\<close>; the length of a JavaScript array is below \<open>2\<^sup>3\<^sup>2\<close>.
\<close>

theorem getQuote_local_index_in_bounds:
  assumes "allQuotes \<noteq> []" "length allQuotes < 2 ^ 32"
    and "is_double (src 0)" "0 \<le> src 0" "src 0 < 1"
  shows "\<exists>k < length allQuotes.
           fst (pick (Finite 0) (array_length allQuotes) src) = Finite (real k)
           \<and> array_get allQuotes (Finite (real k)) = Some (allQuotes ! k)
           \<and> fst (getQuote_local pick allQuotes src) = Some (allQuotes ! k)"
proof -
  obtain k where k: "k < length allQuotes"
    "fst (pick (Finite 0) (array_length allQuotes) src) = Finite (real k)"
    using pick_index [where src = src and xs = allQuotes, OF assms(3,4,5,1,2)] by blast
  have "array_get allQuotes (Finite (real k)) = Some (allQuotes ! k)"
    using k(1) by (rule array_get_nat)
  moreover from this have "fst (getQuote_local pick allQuotes src) = Some (allQuotes ! k)"
    by (simp add: getQuote_local_fst k(2))
  ultimately show ?thesis using k by blast
qed

text \<open>
  Claim C2 on a list of two quotes, the random value being \<open>1/2\<close>.
\<close>

theorem getQuote_local_index_in_bounds_witness:
  "[\<lparr>quote_text = ''Talk is cheap. Show me the code.'', attribution = ''Linus Torvalds''\<rparr>,
     \<lparr>quote_text = ''Testing is a good thing'', attribution = ''Me''\<rparr>] \<noteq> []
   \<and> length
    [\<lparr>quote_text = ''Talk is cheap. Show me the code.'', attribution = ''Linus Torvalds''\<rparr>,
     \<lparr>quote_text = ''Testing is a good thing'', attribution = ''Me''\<rparr>] < 2 ^ 32
   \<and> is_double (constant_source (1 / 2) 0) \<and> 0 \<le> constant_source (1 / 2) 0
   \<and> constant_source (1 / 2) 0 < 1
   \<and> (\<exists>k < 2.
          fst (pick (Finite 0) (Finite 2) (constant_source (1 / 2))) = Finite (real k)
          \<and> fst (getQuote_local pick
    [\<lparr>quote_text = ''Talk is cheap. Show me the code.'', attribution = ''Linus Torvalds''\<rparr>,
     \<lparr>quote_text = ''Testing is a good thing'', attribution = ''Me''\<rparr>]
                 (constant_source (1 / 2))) =
              Some (
    [\<lparr>quote_text = ''Talk is cheap. Show me the code.'', attribution = ''Linus Torvalds''\<rparr>,
     \<lparr>quote_text = ''Testing is a good thing'', attribution = ''Me''\<rparr>] ! k))"
proof -
  let ?qs = "[\<lparr>quote_text = ''Talk is cheap. Show me the code.'', attribution = ''Linus Torvalds''\<rparr>,
     \<lparr>quote_text = ''Testing is a good thing'', attribution = ''Me''\<rparr>]"
  have 1: "?qs \<noteq> []" by simp
  have 2: "length ?qs < 2 ^ 32" by simp
  have 3: "is_double (constant_source (1 / 2) 0)" by (simp add: constant_source_def is_double_half)
  have 4: "0 \<le> constant_source (1 / 2) 0" by (simp add: constant_source_def)
  have 5: "constant_source (1 / 2) 0 < 1" by (simp add: constant_source_def)
  have 6: "length ?qs = 2" by simp
  have 7: "array_length ?qs = Finite 2" by (simp add: array_length_def)
  obtain k where "k < length ?qs"
    "fst (pick (Finite 0) (array_length ?qs) (constant_source (1 / 2))) = Finite (real k)"
    "fst (getQuote_local pick ?qs (constant_source (1 / 2))) = Some (?qs ! k)"
    using getQuote_local_index_in_bounds
      [where allQuotes = ?qs and src = "constant_source (1 / 2)", OF 1 2 3 4 5]
    by blast
  then have "\<exists>k < 2.
      fst (pick (Finite 0) (Finite 2) (constant_source (1 / 2))) = Finite (real k)
      \<and> fst (getQuote_local pick ?qs (constant_source (1 / 2))) = Some (?qs ! k)"
    unfolding 6 7 by blast
  then show ?thesis using 1 2 3 4 5 by blast
qed

text \<open>
  Claim C3: for every non-empty list of quotes, \<open>getQuote()\<close> returns a member of the list;
  when the random number service is stubbed to return \<open>0\<close>, and also when the service is
  the real one and \<open>Math.random()\<close> returns \<open>0\<close>, it returns \<open>allQuotes[0]\<close>.
\<close>

theorem getQuote_local_member:
  assumes "allQuotes \<noteq> []" "length allQuotes < 2 ^ 32"
    and "is_double (src 0)" "0 \<le> src 0" "src 0 < 1"
  shows "(\<exists>q \<in> set allQuotes. fst (getQuote_local pick allQuotes src) = Some q)
         \<and> fst (getQuote_local (spy_pick (Finite 0)) allQuotes calls) = Some (allQuotes ! 0)
         \<and> (src 0 = 0 \<longrightarrow> fst (getQuote_local pick allQuotes src) = Some (allQuotes ! 0))"
proof (intro conjI impI)
  obtain k where k: "k < length allQuotes"
    "fst (pick (Finite 0) (array_length allQuotes) src) = Finite (real k)"
    using pick_index [where src = src and xs = allQuotes, OF assms(3,4,5,1,2)] by blast
  then have "fst (getQuote_local pick allQuotes src) = Some (allQuotes ! k)"
    by (simp add: getQuote_local_fst array_get_nat)
  then show "\<exists>q \<in> set allQuotes. fst (getQuote_local pick allQuotes src) = Some q"
    using k(1) by simp
next
  have "0 < length allQuotes" using assms(1) by simp
  then have "array_get allQuotes (Finite (real 0)) = Some (allQuotes ! 0)" by (rule array_get_nat)
  then show "fst (getQuote_local (spy_pick (Finite 0)) allQuotes calls) = Some (allQuotes ! 0)"
    by (simp add: getQuote_local_fst spy_pick_def)
next
  assume "src 0 = 0"
  then have "fst (pick (Finite 0) (array_length allQuotes) src) = Finite 0"
    using assms(2) by (rule pick_zero_draw)
  moreover have "0 < length allQuotes" using assms(1) by simp
  then have "array_get allQuotes (Finite (real 0)) = Some (allQuotes ! 0)" by (rule array_get_nat)
  ultimately show "fst (getQuote_local pick allQuotes src) = Some (allQuotes ! 0)"
    by (simp add: getQuote_local_fst)
qed

text \<open>
  Claim C3 on the list of the service test, the random value being \<open>0\<close>.
\<close>

theorem getQuote_local_member_witness:
  "[\<lparr>quote_text = ''Testing is a good thing'', attribution = ''Me''\<rparr>] \<noteq> []
   \<and> length [\<lparr>quote_text = ''Testing is a good thing'', attribution = ''Me''\<rparr>] < 2 ^ 32
   \<and> is_double (constant_source 0 0) \<and> 0 \<le> constant_source 0 0 \<and> constant_source 0 0 < 1
   \<and> constant_source 0 0 = 0
   \<and> fst (getQuote_local pick [\<lparr>quote_text = ''Testing is a good thing'', attribution = ''Me''\<rparr>]
             (constant_source 0)) =
        Some \<lparr>quote_text = ''Testing is a good thing'', attribution = ''Me''\<rparr>
   \<and> fst (getQuote_local (spy_pick (Finite 0))
             [\<lparr>quote_text = ''Testing is a good thing'', attribution = ''Me''\<rparr>] []) =
        Some \<lparr>quote_text = ''Testing is a good thing'', attribution = ''Me''\<rparr>"
proof -
  let ?qs = "[\<lparr>quote_text = ''Testing is a good thing'', attribution = ''Me''\<rparr>]"
  have 1: "?qs \<noteq> []" by simp
  have 2: "length ?qs < 2 ^ 32" by simp
  have 3: "is_double (constant_source 0 0)" by (simp add: constant_source_def is_double_0)
  have 4: "0 \<le> constant_source 0 0" by (simp add: constant_source_def)
  have 5: "constant_source 0 0 < 1" by (simp add: constant_source_def)
  have 6: "constant_source 0 0 = 0" by (simp add: constant_source_def)
  show ?thesis
    using 1 2 3 4 5 6
      getQuote_local_member [where allQuotes = ?qs and src = "constant_source 0" and calls = "[]", OF 1 2 3 4 5]
    by simp
qed

text \<open>
  Claim C4: one call of \<open>getQuote()\<close> on a list of length \<open>N\<close> calls \<open>pick\<close> exactly once,
  with the arguments \<open>0\<close> and \<open>N\<close>: the spy has recorded one more call, \<open>pick(0, N)\<close>. On a
  list of one quote the spy, empty before, holds the single call \<open>pick(0, 1)\<close>. With the
  real service, the call takes exactly one value from the random source.
\<close>

theorem getQuote_local_calls_pick_once:
  "snd (getQuote_local (spy_pick v) allQuotes calls) =
     calls @ [(Finite 0, Finite (real (length allQuotes)))]
   \<and> snd (getQuote_local (spy_pick v) [q] []) = [(Finite 0, Finite 1)]
   \<and> snd (getQuote_local pick allQuotes src) = (\<lambda>n. src (Suc n))"
  by (simp add: getQuote_local_snd spy_pick_def array_length_def pick_def Math_random_def)

text \<open>
  Claim C10: on the empty list \<open>getQuote()\<close> raises nothing: \<open>pick(0, 0)\<close> is \<open>0\<close>, the
  access \<open>allQuotes[0]\<close> is out of range, and the result is \<open>undefined\<close> (\<open>None\<close>), one value
  of the random source being consumed.
\<close>

theorem getQuote_local_empty:
  "fst (pick (Finite 0) (array_length ([] :: IQuote list)) src) = Finite 0
   \<and> fst (getQuote_local pick [] src) = None
   \<and> snd (getQuote_local pick [] src) = (\<lambda>n. src (Suc n))"
proof -
  have "fst (pick (Finite 0) (Finite 0) src) = Finite 0"
    by (simp add: pick_Finite fl_0)
  moreover have "snd (pick (Finite 0) (Finite 0) src) = (\<lambda>n. src (Suc n))"
    by (simp add: pick_Finite)
  ultimately show ?thesis
    by (simp add: getQuote_local_fst getQuote_local_snd array_length_def array_get_def)
qed

section \<open>Properties of the QuoteService of the remote endpoint\<close>

lemma getQuote_remote_fst:
  "fst (getQuote_remote http) =
     obs_map record_to_quote
       (obs_map (\<lambda>records. Inr (array_get records (Finite 0)))
         (obs_map (\<lambda>response. Inr (Response_json response))
           (response_observable
              (backend http
                 \<lparr>request_method = Get, url = ''http://quotesondesign.com/wp-json/posts'',
              search = [(''filter[orderby]'', [''rand''])], body = None\<rparr>))))"
  by (simp add: getQuote_remote_def Http_get_def URLSearchParams_new_def QuoteService_URL_def
      Let_def)

text \<open>
  Claim C5: a call of \<open>getQuote()\<close> makes exactly one request: the connections of the
  backend are those from before and one more, with the method \<open>Get\<close>, no body, the fixed
  URL and the one search parameter \<open>filter[orderby]=rand\<close>; the URL of that request reads
  \<open>http://quotesondesign.com/wp-json/posts?filter[orderby]=rand\<close>.
\<close>

theorem getQuote_remote_one_request:
  "connections (snd (getQuote_remote http)) =
     connections http @
       [\<lparr>request_method = Get, url = ''http://quotesondesign.com/wp-json/posts'',
         search = [(''filter[orderby]'', [''rand''])], body = None\<rparr>]
   \<and> Request_url \<lparr>request_method = Get, url = ''http://quotesondesign.com/wp-json/posts'',
         search = [(''filter[orderby]'', [''rand''])], body = None\<rparr> =
       ''http://quotesondesign.com/wp-json/posts?filter[orderby]=rand''
   \<and> backend (snd (getQuote_remote http)) = backend http"
  by (simp add: getQuote_remote_def Http_get_def URLSearchParams_new_def QuoteService_URL_def
      Request_url_def URLSearchParams_toString_def Let_def)

text \<open>
  Claim C6: when the response to the request is a non-empty array of records,
  \<open>getQuote()\<close> delivers the quote made of the first record, \<open>content\<close> as its text and
  \<open>title\<close> as its attribution, and completes.
\<close>

theorem getQuote_remote_first_record:
  assumes "backend http
             \<lparr>request_method = Get, url = ''http://quotesondesign.com/wp-json/posts'',
              search = [(''filter[orderby]'', [''rand''])], body = None\<rparr> =
           Inr (Response (r # rs))"
  shows "fst (getQuote_remote http) =
           [Next \<lparr>quote_text = content r, attribution = title r\<rparr>, Complete]"
  using assms by (simp add: getQuote_remote_fst array_get_first record_to_quote_def)

text \<open>
  Claim C6 on the body of the service test, one record with the title \<open>Me\<close> and the content
  \<open>Testing is a good thing\<close>: the quote has that text and that attribution.
\<close>

theorem getQuote_remote_first_record_witness:
  "backend
     \<lparr>backend = (\<lambda>req. Inr (Response [\<lparr>content = ''Testing is a good thing'', title = ''Me''\<rparr>])),
      connections = []\<rparr>
     \<lparr>request_method = Get, url = ''http://quotesondesign.com/wp-json/posts'',
              search = [(''filter[orderby]'', [''rand''])], body = None\<rparr> =
   Inr (Response [\<lparr>content = ''Testing is a good thing'', title = ''Me''\<rparr>])
   \<and> fst (getQuote_remote
        \<lparr>backend = (\<lambda>req. Inr (Response [\<lparr>content = ''Testing is a good thing'', title = ''Me''\<rparr>])),
         connections = []\<rparr>) =
     [Next \<lparr>quote_text = ''Testing is a good thing'', attribution = ''Me''\<rparr>, Complete]"
  using getQuote_remote_first_record
    [where http = "\<lparr>backend = (\<lambda>req. Inr (Response [\<lparr>content = ''Testing is a good thing'', title = ''Me''\<rparr>])),
                    connections = []\<rparr>"
       and r = "\<lparr>content = ''Testing is a good thing'', title = ''Me''\<rparr>" and rs = "[]"]
  by simp

text \<open>
  Claim C7: when the response to the request is the empty array, \<open>getQuote()\<close> delivers
  an error, the \<open>TypeError\<close> of reading \<open>content\<close> of \<open>undefined\<close>, and no quote.
\<close>

theorem getQuote_remote_empty_array_fails:
  assumes "backend http
             \<lparr>request_method = Get, url = ''http://quotesondesign.com/wp-json/posts'',
              search = [(''filter[orderby]'', [''rand''])], body = None\<rparr> =
           Inr (Response [])"
  shows "fst (getQuote_remote http) = [Error TypeError]"
  using assms by (simp add: getQuote_remote_fst array_get_empty record_to_quote_def)

text \<open>
  Claim C7 on a backend that answers every request with the empty array.
\<close>

theorem getQuote_remote_empty_array_fails_witness:
  "backend \<lparr>backend = (\<lambda>req. Inr (Response [])), connections = []\<rparr>
     \<lparr>request_method = Get, url = ''http://quotesondesign.com/wp-json/posts'',
              search = [(''filter[orderby]'', [''rand''])], body = None\<rparr> =
   Inr (Response [])
   \<and> fst (getQuote_remote \<lparr>backend = (\<lambda>req. Inr (Response [])), connections = []\<rparr>) =
     [Error TypeError]"
  using getQuote_remote_empty_array_fails
    [where http = "\<lparr>backend = (\<lambda>req. Inr (Response [])), connections = []\<rparr>"]
  by simp

text \<open>
  Claim C8: whatever the backend answers, the subscriber of \<open>getQuote()\<close> receives either
  one quote followed by the completion, or one error and nothing else.
\<close>

theorem getQuote_remote_single_outcome:
  "(\<exists>q. fst (getQuote_remote http) = [Next q, Complete])
   \<or> (\<exists>e. fst (getQuote_remote http) = [Error e])"
proof (cases "backend http
    \<lparr>request_method = Get, url = ''http://quotesondesign.com/wp-json/posts'',
              search = [(''filter[orderby]'', [''rand''])], body = None\<rparr>")
  case (Inl e)
  then show ?thesis by (simp add: getQuote_remote_fst)
next
  case (Inr response)
  obtain records where r: "response = Response records" by (cases response)
  show ?thesis
  proof (cases records)
    case Nil
    then show ?thesis using Inr r
      by (simp add: getQuote_remote_fst array_get_empty record_to_quote_def)
  next
    case (Cons a as)
    then show ?thesis using Inr r
      by (simp add: getQuote_remote_fst array_get_first record_to_quote_def)
  qed
qed

section \<open>Properties of the QuoteComponent\<close>

text \<open>
  Claim C9, as stated: the component calls the quote service exactly once during its
  construction. It fails: the constructor calls \<open>getRandomQuote()\<close> and then
  \<open>getRemoteQuote()\<close>, two calls of the service.
\<close>

theorem QuoteComponent_new_calls_counterexample:
  "snd (QuoteComponent_new (spy_service None []) []) = [Call_getRandomQuote, Call_getRemoteQuote]
   \<and> length (snd (QuoteComponent_new (spy_service None []) [])) = 2"
  by (simp add: QuoteComponent_new_def QuoteComponent_getRandomQuote_def
      QuoteComponent_getRemoteQuote_def spy_service_def)

text \<open>
  Claim C9, amended: the construction of the component calls \<open>getRandomQuote()\<close> and
  \<open>getRemoteQuote()\<close> of the service exactly once each, in this order, and binds the quote
  to \<open>randomQuote\<close> and the two projections of the observable to \<open>remoteText$\<close> and
  \<open>remoteAttribution$\<close>; each of the two user actions calls exactly one method of the
  service, the one of its name, exactly once, and binds its result to the same fields; the
  service is not called otherwise.
\<close>

theorem QuoteComponent_calls:
  "QuoteComponent_new (spy_service q obs) calls =
     (\<lparr>randomQuote = q,
       remoteText = Some (obs_map (\<lambda>q. Inr (quote_text q)) obs),
       remoteAttribution = Some (obs_map (\<lambda>q. Inr (attribution q)) obs)\<rparr>,
      calls @ [Call_getRandomQuote, Call_getRemoteQuote])
   \<and> QuoteComponent_getRandomQuote (spy_service q obs) (c, calls) =
       (c\<lparr>randomQuote := q\<rparr>, calls @ [Call_getRandomQuote])
   \<and> QuoteComponent_getRemoteQuote (spy_service q obs) (c, calls) =
       (c\<lparr>remoteText := Some (obs_map (\<lambda>q. Inr (quote_text q)) obs),
          remoteAttribution := Some (obs_map (\<lambda>q. Inr (attribution q)) obs)\<rparr>,
        calls @ [Call_getRemoteQuote])"
  by (simp add: QuoteComponent_new_def QuoteComponent_getRandomQuote_def
      QuoteComponent_getRemoteQuote_def spy_service_def)

end
